theory Spec2Isabelle
  imports Main "HOL-Library.Word"
begin

section \<open>The recorder of \<^verbatim>\<open>record.py\<close>\<close>

text \<open>
  A shallow embedding of the streaming-audio capture controller: the notification
  handler that decodes a packet and appends its samples, the stream and recording
  operations, the WAV export, the device scan and the command loop.

  Conventions of the embedding.
  \<^item> A byte of a \<^verbatim>\<open>bytes\<close>/\<^verbatim>\<open>bytearray\<close> value is an \<open>8 word\<close>; a Python integer is an
    \<open>int\<close>; a Python list of samples is an \<open>int list\<close>.
  \<^item> A \<^verbatim>\<open>datetime\<close> is the number of microseconds since some fixed origin, an \<open>int\<close>
    (the resolution of \<^verbatim>\<open>datetime\<close>). For a difference of \<open>n\<close> microseconds,
    \<^verbatim>\<open>total_seconds()\<close> is the correctly rounded quotient \<open>n / 10^6\<close>, which is below
    \<open>2\<close> exactly when \<open>n < 2000000\<close>; the guard is written on microseconds.
  \<^item> An exception is a value of type \<open>error\<close>. A function that mutates the state
    dictionary returns the dictionary as it is when the function returns or raises.
  \<^item> Logging has no effect on any value the program computes and is left out.
\<close>

subsection \<open>Errors\<close>

datatype error =
    StructError      \<comment> \<open>\<^verbatim>\<open>struct.error\<close>: wrong buffer size, or a value out of range\<close>
  | TypeError        \<comment> \<open>\<^verbatim>\<open>datetime - None\<close>\<close>
  | TransportError   \<comment> \<open>any exception raised by a GATT operation of the BLE client\<close>
  | OSError          \<comment> \<open>\<^verbatim>\<open>open\<close> could not create the file (\<^verbatim>\<open>FileNotFoundError\<close>, ...)\<close>

subsection \<open>The \<^verbatim>\<open>struct\<close> formats the program uses\<close>

type_synonym byte = "8 word"

text \<open>Python's slice \<^verbatim>\<open>data[i:j]\<close> for \<open>0 \<le> i \<le> j\<close>: clipped to the length, never an error.\<close>

definition slice_bytes :: "'a list \<Rightarrow> nat \<Rightarrow> nat \<Rightarrow> 'a list" where
  "slice_bytes data i j = take (j - i) (drop i data)"

text \<open>Consecutive byte pairs, low byte first, as unsigned 16-bit values.\<close>

fun le16_values :: "byte list \<Rightarrow> nat list" where
  "le16_values (lo # hi # bs) = (unat lo + 256 * unat hi) # le16_values bs"
| "le16_values _ = []"

text \<open>Two's complement reading of an unsigned 16-bit value.\<close>

definition signed16 :: "nat \<Rightarrow> int" where
  "signed16 u = (if u < 32768 then int u else int u - 65536)"

text \<open>
  \<^verbatim>\<open>struct.unpack('<H', b)[0]\<close>: the buffer must hold exactly 2 bytes.
\<close>

definition unpack_H :: "byte list \<Rightarrow> error + nat" where
  "unpack_H b =
     (case b of
        [lo, hi] \<Rightarrow> Inr (unat lo + 256 * unat hi)
      | _ \<Rightarrow> Inl StructError)"

text \<open>
  \<^verbatim>\<open>struct.unpack('<nh', b)\<close>: the buffer must hold exactly \<open>2 * n\<close> bytes; the result
  is the \<open>n\<close> signed values in order.
\<close>

definition unpack_h :: "nat \<Rightarrow> byte list \<Rightarrow> error + int list" where
  "unpack_h n b =
     (if length b \<noteq> 2 * n then Inl StructError
      else Inr (map signed16 (le16_values b)))"

text \<open>
  \<^verbatim>\<open>struct.pack('<Kh', *values)\<close> with \<open>K = len(values)\<close>: every value must be in the range
  of a signed 16-bit integer, otherwise \<^verbatim>\<open>struct.error\<close>; each value gives its low byte,
  then its high byte.
\<close>

definition in_int16 :: "int \<Rightarrow> bool" where
  "in_int16 v = (- 32768 \<le> v \<and> v \<le> 32767)"

definition le16_bytes :: "int \<Rightarrow> byte list" where
  "le16_bytes v = [word_of_int (v mod 256), word_of_int ((v mod 65536) div 256)]"

definition pack_h :: "int list \<Rightarrow> error + byte list" where
  "pack_h values =
     (if list_all in_int16 values then Inr (concat (map le16_bytes values))
      else Inl StructError)"

subsection \<open>The session state\<close>

text \<open>The dictionary \<^verbatim>\<open>state\<close> of \<^verbatim>\<open>main\<close>; \<open>start_time = None\<close> is Python's \<^verbatim>\<open>None\<close>.\<close>

record state =
  audio_samples :: "int list"
  recording :: "int list"
  is_recording :: bool
  is_streaming :: bool
  start_time :: "int option"

definition initial_state :: state where
  "initial_state =
     \<lparr>audio_samples = [], recording = [], is_recording = False,
      is_streaming = False, start_time = None\<rparr>"

subsection \<open>The notification handler\<close>

text \<open>
  The two \<^verbatim>\<open>struct.unpack\<close> calls of the handler (its lines under ``Parse packet''):
  the sequence number from \<^verbatim>\<open>data[0:2]\<close>, then 121 samples from \<^verbatim>\<open>data[1:243]\<close>.
\<close>

definition parse_packet :: "byte list \<Rightarrow> error + (nat \<times> int list)" where
  "parse_packet data =
     (case unpack_H (slice_bytes data 0 2) of
        Inl e \<Rightarrow> Inl e
      | Inr seq_num \<Rightarrow>
          (case unpack_h 121 (slice_bytes data 1 243) of
             Inl e \<Rightarrow> Inl e
           | Inr samples \<Rightarrow> Inr (seq_num, samples)))"

text \<open>
  \<^verbatim>\<open>notification_handler(sender, data, state)\<close> called at time \<open>now\<close>. The result is the
  exception raised, if any, and the state dictionary afterwards. The sender is not
  used. The sequence number is computed and dropped, as in the source.
\<close>

definition notification_handler :: "int \<Rightarrow> byte list \<Rightarrow> state \<Rightarrow> error option \<times> state" where
  "notification_handler now data s =
     (case start_time s of
        None \<Rightarrow> (Some TypeError, s)
      | Some t0 \<Rightarrow>
          if now - t0 < 2000000 then (None, s)
          else
            (case parse_packet data of
               Inl e \<Rightarrow> (Some e, s)
             | Inr (seq_num, samples) \<Rightarrow>
                 let s1 = s\<lparr>audio_samples := audio_samples s @ samples\<rparr>
                 in (None,
                     if is_recording s1
                     then s1\<lparr>recording := recording s1 @ samples\<rparr>
                     else s1)))"

text \<open>
  Notifications are handled one at a time, in arrival order. An exception of the
  handler ends that call only: it is raised into the callback dispatcher of the BLE
  library, which is not part of this program, and the next notification is handled
  on the state the failed call left.
\<close>

fun deliver :: "(int \<times> byte list) list \<Rightarrow> state \<Rightarrow> state" where
  "deliver [] s = s"
| "deliver ((now, data) # ps) s = deliver ps (snd (notification_handler now data s))"

subsection \<open>The BLE client\<close>

text \<open>
  The program uses three GATT operations of the connected client, all on the one
  characteristic \<^verbatim>\<open>AUDIO_CHAR_UUID\<close>: \<^verbatim>\<open>start_notify\<close>, \<^verbatim>\<open>write_gatt_char\<close> and
  \<^verbatim>\<open>stop_notify\<close>. The client is outside the program; what the program can observe of
  it is kept here: whether the notification callback is installed, the values written
  so far, and, for each GATT call still to come, whether that call will raise
  (\<open>faults\<close>, consumed one entry per call; when it is exhausted every call succeeds).
  A call that raises leaves the client otherwise as it was.
\<close>

record client =
  notifying :: bool
  written :: "byte list list"
  faults :: "bool list"

definition next_fault :: "client \<Rightarrow> bool \<times> client" where
  "next_fault c =
     (case faults c of
        [] \<Rightarrow> (False, c)
      | f # fs \<Rightarrow> (f, c\<lparr>faults := fs\<rparr>))"

definition start_notify :: "client \<Rightarrow> error option \<times> client" where
  "start_notify c =
     (case next_fault c of
        (True, c') \<Rightarrow> (Some TransportError, c')
      | (False, c') \<Rightarrow> (None, c'\<lparr>notifying := True\<rparr>))"

definition write_gatt_char :: "byte list \<Rightarrow> client \<Rightarrow> error option \<times> client" where
  "write_gatt_char v c =
     (case next_fault c of
        (True, c') \<Rightarrow> (Some TransportError, c')
      | (False, c') \<Rightarrow> (None, c'\<lparr>written := written c' @ [v]\<rparr>))"

definition stop_notify :: "client \<Rightarrow> error option \<times> client" where
  "stop_notify c =
     (case next_fault c of
        (True, c') \<Rightarrow> (Some TransportError, c')
      | (False, c') \<Rightarrow> (None, c'\<lparr>notifying := False\<rparr>))"

subsection \<open>Starting and stopping the stream\<close>

text \<open>
  \<^verbatim>\<open>start_stream(client, state)\<close>. Every exception of the two GATT calls is caught and
  gives \<^verbatim>\<open>False\<close>. The callback is installed by \<^verbatim>\<open>start_notify\<close>, so notifications can
  be dispatched while the coroutine is suspended in the START write that follows:
  \<open>arrivals\<close> are those notifications, handled on the state as it is then. \<open>now\<close> is
  the clock when \<^verbatim>\<open>start_time\<close> is assigned.
\<close>

definition start_stream ::
    "(int \<times> byte list) list \<Rightarrow> int \<Rightarrow> client \<Rightarrow> state \<Rightarrow> bool \<times> client \<times> state" where
  "start_stream arrivals now c s =
     (case start_notify c of
        (Some e, c1) \<Rightarrow> (False, c1, s)
      | (None, c1) \<Rightarrow>
          let s1 = deliver arrivals s in
          (case write_gatt_char [1] c1 of
             (Some e, c2) \<Rightarrow> (False, c2, s1)
           | (None, c2) \<Rightarrow> (True, c2, s1\<lparr>start_time := Some now\<rparr>)))"

text \<open>
  \<^verbatim>\<open>stop_stream(client, is_streaming, start_time)\<close>. Nothing is caught here: an exception
  of a GATT call leaves the function, and so does the \<^verbatim>\<open>TypeError\<close> of
  \<^verbatim>\<open>dt.now() - start_time\<close> in the log message when \<^verbatim>\<open>start_time\<close> is \<^verbatim>\<open>None\<close>.
\<close>

definition stop_stream :: "client \<Rightarrow> bool \<Rightarrow> int option \<Rightarrow> (error + bool) \<times> client" where
  "stop_stream c streaming t0 =
     (if \<not> streaming then (Inr False, c)
      else
        (case write_gatt_char [0] c of
           (Some e, c1) \<Rightarrow> (Inl e, c1)
         | (None, c1) \<Rightarrow>
             (case stop_notify c1 of
                (Some e, c2) \<Rightarrow> (Inl e, c2)
              | (None, c2) \<Rightarrow>
                  (case t0 of
                     None \<Rightarrow> (Inl TypeError, c2)
                   | Some t \<Rightarrow> (Inr False, c2)))))"

subsection \<open>Recording\<close>

definition start_recording :: "state \<Rightarrow> bool \<times> state" where
  "start_recording s = (True, s\<lparr>recording := []\<rparr>)"

definition stop_recording :: "int list \<Rightarrow> bool" where
  "stop_recording rec = False"

subsection \<open>Saving a WAV file\<close>

text \<open>
  What \<^verbatim>\<open>wave\<close> puts in the file: the three parameters set before the first write, the
  frame count of the header, and the data chunk. \<^verbatim>\<open>writeframes(data)\<close> appends \<open>data\<close>
  unchanged to the data chunk and counts \<open>len(data) // (sampwidth * nchannels)\<close>
  frames.
\<close>

record wav_file =
  nchannels :: nat
  sampwidth :: nat
  framerate :: nat
  nframes :: nat
  frames :: "byte list"

definition SAMPLE_RATE :: nat where
  "SAMPLE_RATE = 32000"

definition writeframes :: "byte list \<Rightarrow> wav_file \<Rightarrow> wav_file" where
  "writeframes data w =
     w\<lparr>nframes := nframes w + length data div (sampwidth w * nchannels w),
       frames := frames w @ data\<rparr>"

text \<open>
  \<^verbatim>\<open>save_recording(filename, recording)\<close> on the files written so far.
  \<^verbatim>\<open>wave.open(filename, 'wb')\<close> opens the file with the builtin \<^verbatim>\<open>open\<close>, which raises
  when the file cannot be created; then nothing is written and the exception leaves
  \<^verbatim>\<open>save_recording\<close>. The empty name can never be opened (\<^verbatim>\<open>FileNotFoundError\<close>); for any
  other name the operating system decides (a missing directory, no permission), and
  \<open>can_create\<close> is its answer. Opening with \<^verbatim>\<open>'wb'\<close> replaces the file. When \<^verbatim>\<open>struct.pack\<close>
  raises, the \<^verbatim>\<open>with\<close> block closes the file on the way out, which leaves a header and
  no frames.
\<close>

definition save_recording ::
    "bool \<Rightarrow> string \<Rightarrow> int list \<Rightarrow> (string \<rightharpoonup> wav_file) \<Rightarrow>
     error option \<times> (string \<rightharpoonup> wav_file)" where
  "save_recording can_create filename rec files =
     (if filename = [] \<or> \<not> can_create then (Some OSError, files)
      else
        let w = \<lparr>nchannels = 1, sampwidth = 2, framerate = SAMPLE_RATE, nframes = 0, frames = []\<rparr>
        in case pack_h rec of
             Inl e \<Rightarrow> (Some e, files(filename \<mapsto> w))
           | Inr data \<Rightarrow> (None, files(filename \<mapsto> writeframes data w)))"

subsection \<open>Scanning for the device\<close>

record ble_device =
  name :: "string option"
  address :: string

definition DEVICES :: "string list" where
  "DEVICES = [''D5:91:CC:7A:AC:E4'', ''E4:02:D2:DA:A5:29'']"

text \<open>Python's \<^verbatim>\<open>sub in s\<close> on strings.\<close>

fun str_contains :: "string \<Rightarrow> string \<Rightarrow> bool" where
  "str_contains sub [] = (sub = [])"
| "str_contains sub (c # cs) = (take (length sub) (c # cs) = sub \<or> str_contains sub cs)"

text \<open>
  The variables \<^verbatim>\<open>device\<close> and \<^verbatim>\<open>found_event\<close> of \<^verbatim>\<open>main\<close>, which the detection callback
  assigns.
\<close>

record scan_state =
  device :: "ble_device option"
  found_event :: bool

text \<open>
  The condition of \<^verbatim>\<open>detection_callback\<close>: \<^verbatim>\<open>d\<close> is not \<^verbatim>\<open>None\<close>, its name is neither
  \<^verbatim>\<open>None\<close> nor empty and contains \<^verbatim>\<open>"Amua"\<close>, and its address is in \<^verbatim>\<open>DEVICES\<close>.
\<close>

definition matches :: "ble_device option \<Rightarrow> bool" where
  "matches d =
     (case d of
        None \<Rightarrow> False
      | Some dev \<Rightarrow>
          (case name dev of
             None \<Rightarrow> False
           | Some n \<Rightarrow> n \<noteq> [] \<and> str_contains ''Amua'' n \<and> address dev \<in> set DEVICES))"

text \<open>\<^verbatim>\<open>detection_callback(d, advertisement_data)\<close>; the advertisement data is not used.\<close>

definition detection_callback :: "ble_device option \<Rightarrow> scan_state \<Rightarrow> scan_state" where
  "detection_callback d sc =
     (if matches d then sc\<lparr>device := d, found_event := True\<rparr> else sc)"

text \<open>
  The scan of \<^verbatim>\<open>main\<close>. The callback is installed from \<^verbatim>\<open>scanner.start()\<close> until
  \<^verbatim>\<open>scanner.stop()\<close> has completed, and is called once for each detection. A detection
  is a time, in microseconds since \<^verbatim>\<open>asyncio.wait_for\<close> was called, and the device
  detected; the detections are given in arrival order.
\<close>

definition SCAN_TIMEOUT :: int where
  "SCAN_TIMEOUT = 10000000"

text \<open>
  \<^verbatim>\<open>await asyncio.wait_for(found_event.wait(), timeout=10.0)\<close>, with the
  \<^verbatim>\<open>TimeoutError\<close> caught: the callback handles the detections as they arrive; the wait
  ends as soon as \<^verbatim>\<open>found_event\<close> is set, or at the timeout. The result is the time the
  wait ends, the variables then, and the detections not yet handled.
\<close>

fun wait_for_found ::
    "(int \<times> ble_device option) list \<Rightarrow> scan_state \<Rightarrow>
     int \<times> scan_state \<times> (int \<times> ble_device option) list" where
  "wait_for_found [] sc = (SCAN_TIMEOUT, sc, [])"
| "wait_for_found ((t, d) # ds) sc =
     (if SCAN_TIMEOUT \<le> t then (SCAN_TIMEOUT, sc, (t, d) # ds)
      else
        let sc' = detection_callback d sc in
        if found_event sc' then (max 0 t, sc', ds) else wait_for_found ds sc')"

text \<open>
  The whole scan: the wait, then the \<^verbatim>\<open>finally\<close> block. \<^verbatim>\<open>await scanner.stop()\<close> takes
  \<open>stop_delay\<close> microseconds, decided by the radio and the event loop, and the callback
  still handles the detections that arrive before the scanner has stopped. The result
  is \<^verbatim>\<open>device\<close> and \<^verbatim>\<open>found_event\<close> as they are after the scan.
\<close>

definition scan :: "int \<Rightarrow> (int \<times> ble_device option) list \<Rightarrow> scan_state" where
  "scan stop_delay detections =
     (case wait_for_found detections \<lparr>device = None, found_event = False\<rparr> of
        (t_end, sc, rest) \<Rightarrow>
          fold detection_callback
            (map snd (takeWhile (\<lambda>(t, d). t < t_end + stop_delay) rest)) sc)"

text \<open>
  What \<^verbatim>\<open>main\<close> does after the scan: return when \<^verbatim>\<open>device\<close> is \<^verbatim>\<open>None\<close>, otherwise connect
  to \<^verbatim>\<open>device.address\<close>.
\<close>

datatype scan_outcome = Not_found | Connect string

definition locate :: "int \<Rightarrow> (int \<times> ble_device option) list \<Rightarrow> scan_outcome" where
  "locate stop_delay detections =
     (case device (scan stop_delay detections) of
        None \<Rightarrow> Not_found
      | Some d \<Rightarrow> Connect (address d))"

subsection \<open>The command loop\<close>

text \<open>
  Everything the loop of \<^verbatim>\<open>main\<close> works on: the state dictionary, the client, and the
  files written.
\<close>

record world =
  st :: state
  cl :: client
  files :: "string \<rightharpoonup> wav_file"

text \<open>
  What one pass of the loop reads from outside: the command line, the line typed at
  the filename prompt and whether the operating system lets a file of that name be
  created (both read by \<^verbatim>\<open>save_record\<close> only), the clock, and the notifications
  dispatched while \<^verbatim>\<open>start_stream\<close> is suspended in its START write.
\<close>

record input =
  command :: string
  filename :: string
  creatable :: bool
  clock :: int
  arrivals :: "(int \<times> byte list) list"

text \<open>\<^verbatim>\<open>if command == "start_stream" and not state['is_streaming']\<close>\<close>

definition on_start_stream :: "input \<Rightarrow> world \<Rightarrow> world" where
  "on_start_stream i w =
     (if command i = ''start_stream'' \<and> \<not> is_streaming (st w) then
        (case start_stream (arrivals i) (clock i) (cl w) (st w) of
           (r, c, s) \<Rightarrow> w\<lparr>st := s\<lparr>is_streaming := r\<rparr>, cl := c\<rparr>)
      else w)"

text \<open>
  \<^verbatim>\<open>if command == "stop_stream" and state['is_streaming']\<close> with its \<^verbatim>\<open>elif\<close> for
  \<^verbatim>\<open>"stop_record"\<close>. When \<^verbatim>\<open>stop_stream\<close> raises, the assignment to
  \<^verbatim>\<open>state['is_streaming']\<close> does not happen.
\<close>

definition on_stop :: "input \<Rightarrow> world \<Rightarrow> error option \<times> world" where
  "on_stop i w =
     (if command i = ''stop_stream'' \<and> is_streaming (st w) then
        (case stop_stream (cl w) (is_streaming (st w)) (start_time (st w)) of
           (Inl e, c) \<Rightarrow> (Some e, w\<lparr>cl := c\<rparr>)
         | (Inr r, c) \<Rightarrow> (None, w\<lparr>st := (st w)\<lparr>is_streaming := r\<rparr>, cl := c\<rparr>))
      else if command i = ''stop_record'' \<and> is_recording (st w) then
        (None, w\<lparr>st := (st w)\<lparr>is_recording := stop_recording (recording (st w))\<rparr>\<rparr>)
      else (None, w))"

text \<open>\<^verbatim>\<open>if command == "start_record" and not state['is_recording']\<close>\<close>

definition on_start_record :: "input \<Rightarrow> world \<Rightarrow> world" where
  "on_start_record i w =
     (if command i = ''start_record'' \<and> \<not> is_recording (st w) then
        (case start_recording (st w) of
           (r, s) \<Rightarrow> w\<lparr>st := s\<lparr>is_recording := r\<rparr>\<rparr>)
      else w)"

text \<open>
  \<^verbatim>\<open>if command == "save_record"\<close>. An exception of \<^verbatim>\<open>save_recording\<close> is not caught.
\<close>

definition on_save_record :: "input \<Rightarrow> world \<Rightarrow> error option \<times> world" where
  "on_save_record i w =
     (if command i = ''save_record'' then
        (case save_recording (creatable i) (filename i) (recording (st w)) (files w) of
           (r, fs) \<Rightarrow> (r, w\<lparr>files := fs\<rparr>))
      else (None, w))"

text \<open>
  \<^verbatim>\<open>if command == "exit"\<close>: \<^verbatim>\<open>stop_stream\<close> is called whatever the flag is, then \<^verbatim>\<open>break\<close>.
  The result is \<open>Inr True\<close> for the \<^verbatim>\<open>break\<close>, \<open>Inr False\<close> when the loop goes on.
\<close>

definition on_exit :: "input \<Rightarrow> world \<Rightarrow> (error + bool) \<times> world" where
  "on_exit i w =
     (if command i = ''exit'' then
        (case stop_stream (cl w) (is_streaming (st w)) (start_time (st w)) of
           (Inl e, c) \<Rightarrow> (Inl e, w\<lparr>cl := c\<rparr>)
         | (Inr r, c) \<Rightarrow> (Inr True, w\<lparr>st := (st w)\<lparr>is_streaming := r\<rparr>, cl := c\<rparr>))
      else (Inr False, w))"

text \<open>One pass of the \<^verbatim>\<open>while\<close> loop: the five statements in the order of the source.\<close>

definition iteration :: "input \<Rightarrow> world \<Rightarrow> (error + bool) \<times> world" where
  "iteration i w0 =
     (let w1 = on_start_stream i w0 in
      case on_stop i w1 of
        (Some e, w2) \<Rightarrow> (Inl e, w2)
      | (None, w2) \<Rightarrow>
          let w3 = on_start_record i w2 in
          (case on_save_record i w3 of
             (Some e, w4) \<Rightarrow> (Inl e, w4)
           | (None, w4) \<Rightarrow> on_exit i w4))"

text \<open>
  The loop runs on what happens to the program, in order: a notification (handled by
  the callback when one is installed, between two passes of the loop), or a command
  line. It ends with the \<^verbatim>\<open>break\<close> of \<^verbatim>\<open>exit\<close> or with an exception, which nothing in
  \<^verbatim>\<open>main\<close> catches; when the events are used up it is waiting for the next command.
  Notifications dispatched while \<^verbatim>\<open>stop_stream\<close> is suspended find the state as it was
  before the command and are the same as notifications just before it. What \<^verbatim>\<open>main\<close>
  does after the loop, the export of the capture buffer and its analysis, is left out.
\<close>

datatype event = Notification int "byte list" | Input input

datatype status = Waiting | Exited | Raised error

fun command_loop :: "event list \<Rightarrow> world \<Rightarrow> status \<times> world" where
  "command_loop [] w = (Waiting, w)"
| "command_loop (Notification now data # es) w =
     command_loop es
       (if notifying (cl w) then w\<lparr>st := snd (notification_handler now data (st w))\<rparr> else w)"
| "command_loop (Input i # es) w =
     (case iteration i w of
        (Inl e, w') \<Rightarrow> (Raised e, w')
      | (Inr True, w') \<Rightarrow> (Exited, w')
      | (Inr False, w') \<Rightarrow> command_loop es w')"

text \<open>The world when the loop is entered: the initial dictionary, a connected client.\<close>

definition initial_world :: "bool list \<Rightarrow> world" where
  "initial_world fl =
     \<lparr>st = initial_state,
      cl = \<lparr>notifying = False, written = [], faults = fl\<rparr>,
      files = Map.empty\<rparr>"

subsection \<open>Auxiliary notions for the statements\<close>

text \<open>The samples a packet contributes: those it decodes to, none when it does not decode.\<close>

definition packet_samples :: "byte list \<Rightarrow> int list" where
  "packet_samples data =
     (case parse_packet data of
        Inl e \<Rightarrow> []
      | Inr (seq_num, samples) \<Rightarrow> samples)"

text \<open>The notifications that arrive at least 2 seconds after \<open>t0\<close>.\<close>

definition after_guard :: "int \<Rightarrow> (int \<times> byte list) list \<Rightarrow> (int \<times> byte list) list" where
  "after_guard t0 ps = filter (\<lambda>p. 2000000 \<le> fst p - t0) ps"

text \<open>An event list without the command \<^verbatim>\<open>start_record\<close>.\<close>

definition no_start_record :: "event list \<Rightarrow> bool" where
  "no_start_record es =
     list_all (\<lambda>e. case e of Notification now data \<Rightarrow> True
                            | Input i \<Rightarrow> command i \<noteq> ''start_record'') es"


text \<open>The next \<open>n\<close> GATT calls of the client all succeed.\<close>

definition gatt_calls_succeed :: "nat \<Rightarrow> client \<Rightarrow> bool" where
  "gatt_calls_succeed n c = (True \<notin> set (take n (faults c)))"

text \<open>
  The state a successful \<^verbatim>\<open>stop_stream\<close> leaves the client in: STOP written, the
  callback removed, two GATT calls used.
\<close>

definition stopped_client :: "client \<Rightarrow> client" where
  "stopped_client c =
     c\<lparr>notifying := False, written := written c @ [[0]], faults := drop 2 (faults c)\<rparr>"

text \<open>
  The world after a successful \<^verbatim>\<open>start_stream\<close> at time 0 from the initial one, with the
  given outcomes for the GATT calls to come.
\<close>

definition streaming_world :: "bool list \<Rightarrow> world" where
  "streaming_world fl =
     \<lparr>st = initial_state\<lparr>is_streaming := True, start_time := Some 0\<rparr>,
      cl = \<lparr>notifying = True, written = [[1]], faults = fl\<rparr>,
      files = Map.empty\<rparr>"

text \<open>A command line, for the examples.\<close>

definition cmd :: "string \<Rightarrow> input" where
  "cmd c = \<lparr>command = c, filename = [], creatable = True, clock = 0, arrivals = []\<rparr>"

text \<open>Whenever the streaming flag is set, \<open>start_time\<close> is set.\<close>

definition timed :: "world \<Rightarrow> bool" where
  "timed w = (is_streaming (st w) \<longrightarrow> start_time (st w) \<noteq> None)"

section \<open>Properties\<close>

subsection \<open>The byte formats\<close>

lemma length_le16_values: "length (le16_values b) = length b div 2"
  by (induction b rule: le16_values.induct) auto

lemma le16_values_nth:
  "2 * i + 1 < length b \<Longrightarrow>
   le16_values b ! i = unat (b ! (2 * i)) + 256 * unat (b ! (2 * i + 1))"
proof (induction b arbitrary: i rule: le16_values.induct)
  case (1 lo hi bs)
  then show ?case by (cases i) auto
qed auto

lemma length_slice_bytes: "length (slice_bytes data i j) = min (j - i) (length data - i)"
  by (simp add: slice_bytes_def)

lemma slice_bytes_nth:
  "k < j - i \<Longrightarrow> i + k < length data \<Longrightarrow> slice_bytes data i j ! k = data ! (i + k)"
  by (simp add: slice_bytes_def)

lemma unpack_H_two: "length b = 2 \<Longrightarrow> unpack_H b = Inr (unat (b ! 0) + 256 * unat (b ! 1))"
  by (auto simp: unpack_H_def split: list.splits)

lemma unpack_H_error: "unpack_H b = Inl e \<Longrightarrow> e = StructError"
  by (auto simp: unpack_H_def split: list.splits)

text \<open>The arithmetic of the model agrees with the 16-bit words of the library.\<close>

lemma uint_word_cat_bytes:
  "uint (word_cat hi lo :: 16 word) = uint lo + 256 * uint hi" for lo hi :: byte
proof -
  have lo: "0 \<le> uint lo" "uint lo < 256" using uint_lt2p [of lo] by simp_all
  have hi: "0 \<le> uint hi" "uint hi < 256" using uint_lt2p [of hi] by simp_all
  have "uint (word_cat hi lo :: 16 word) = (uint lo mod 256 + uint hi * 256) mod 65536"
    by (simp only: word_cat_eq' uint_word_of_int concat_bit_eq take_bit_eq_mod push_bit_eq_mult)
      simp
  also have "\<dots> = uint lo + 256 * uint hi"
    using lo hi by simp
  finally show ?thesis .
qed

lemma unat_word_cat_bytes:
  "unat (word_cat hi lo :: 16 word) = unat lo + 256 * unat hi" for lo hi :: byte
proof -
  have "int (unat (word_cat hi lo :: 16 word)) = int (unat lo + 256 * unat hi)"
    by (simp add: uint_word_cat_bytes)
  then show ?thesis by (simp only: of_nat_eq_iff)
qed

lemma sint_16: "sint (w :: 16 word) = (if uint w < 32768 then uint w else uint w - 65536)"
proof -
  have b: "0 \<le> uint w" "uint w < 65536" using uint_lt2p [of w] by simp_all
  have s: "sint w = (uint w + 32768) mod 65536 - 32768"
    by (simp add: sint_uint signed_take_bit_eq_take_bit_shift take_bit_eq_mod)
  show ?thesis
  proof (cases "uint w < 32768")
    case True
    then show ?thesis using b s by simp
  next
    case False
    have "(uint w + 32768) mod 65536 = (uint w - 32768 + 65536) mod 65536"
      by (rule arg_cong [where f = "\<lambda>x. x mod 65536"]) simp
    also have "\<dots> = (uint w - 32768) mod 65536" by (simp only: mod_add_self2)
    also have "\<dots> = uint w - 32768" using b False by simp
    finally show ?thesis using False s by simp
  qed
qed

lemma signed16_sint:
  "signed16 (unat lo + 256 * unat hi) = sint (word_cat hi lo :: 16 word)" for lo hi :: byte
proof -
  have e: "int (unat lo + 256 * unat hi) = uint (word_cat hi lo :: 16 word)"
    by (simp add: uint_word_cat_bytes)
  have "signed16 (unat lo + 256 * unat hi) =
      (if int (unat lo + 256 * unat hi) < 32768 then int (unat lo + 256 * unat hi)
       else int (unat lo + 256 * unat hi) - 65536)"
    unfolding signed16_def
    by (simp only: of_nat_less_iff [symmetric, where 'a = int] of_nat_numeral)
  also have "\<dots> = sint (word_cat hi lo :: 16 word)"
    unfolding e sint_16 ..
  finally show ?thesis .
qed

subsection \<open>Decoding a packet\<close>

lemma parse_packet_long:
  assumes "243 \<le> length data"
  shows "parse_packet data =
    Inr (unat (data ! 0) + 256 * unat (data ! 1),
         map (\<lambda>i. signed16 (unat (data ! (2 * i + 1)) + 256 * unat (data ! (2 * i + 2))))
           [0..<121])"
proof -
  let ?f = "\<lambda>i. signed16 (unat (data ! (2 * i + 1)) + 256 * unat (data ! (2 * i + 2)))"
  have l2: "length (slice_bytes data 0 2) = 2"
    using assms by (simp add: length_slice_bytes)
  have l242: "length (slice_bytes data 1 243) = 242"
    using assms by (simp add: length_slice_bytes)
  have sq: "unpack_H (slice_bytes data 0 2) = Inr (unat (data ! 0) + 256 * unat (data ! 1))"
  proof -
    have "slice_bytes data 0 2 ! 0 = data ! 0" "slice_bytes data 0 2 ! 1 = data ! 1"
      using assms by (simp_all add: slice_bytes_def)
    then show ?thesis by (simp add: unpack_H_two [OF l2])
  qed
  have "map signed16 (le16_values (slice_bytes data 1 243)) = map ?f [0..<121]"
  proof (rule nth_equalityI)
    show "length (map signed16 (le16_values (slice_bytes data 1 243))) = length (map ?f [0..<121])"
      using l242 by (simp add: length_le16_values)
  next
    fix i assume "i < length (map signed16 (le16_values (slice_bytes data 1 243)))"
    then have i: "i < 121" using l242 by (simp add: length_le16_values)
    then have "le16_values (slice_bytes data 1 243) ! i =
        unat (slice_bytes data 1 243 ! (2 * i)) + 256 * unat (slice_bytes data 1 243 ! (2 * i + 1))"
      using l242 by (intro le16_values_nth) simp
    also have "\<dots> = unat (data ! (2 * i + 1)) + 256 * unat (data ! (2 * i + 2))"
      using i assms by (simp add: slice_bytes_nth add.commute)
    finally show "map signed16 (le16_values (slice_bytes data 1 243)) ! i = map ?f [0..<121] ! i"
      using i l242 by (simp add: length_le16_values)
  qed
  then show ?thesis
    using l242 by (simp add: parse_packet_def sq unpack_h_def)
qed

lemma parse_packet_short:
  assumes "length data < 243"
  shows "parse_packet data = Inl StructError"
proof -
  have "length (slice_bytes data 1 243) \<noteq> 242"
    using assms by (simp add: length_slice_bytes)
  then show ?thesis
    by (auto simp: parse_packet_def unpack_h_def split: sum.splits dest: unpack_H_error)
qed

lemma handler_accepts:
  assumes "parse_packet data = Inr (q, samples)" "start_time s = Some t0" "2000000 \<le> now - t0"
  shows "notification_handler now data s =
    (None, s\<lparr>audio_samples := audio_samples s @ samples,
             recording := (if is_recording s then recording s @ samples else recording s)\<rparr>)"
  using assms by (simp add: notification_handler_def)

lemma handler_rejects:
  assumes "parse_packet data = Inl e"
  shows "snd (notification_handler now data s) = s"
  using assms by (simp add: notification_handler_def split: option.splits)

text \<open>
  C1. A packet of at least 243 bytes is decoded into the sequence number, the unsigned
  16-bit little-endian value of bytes 0 and 1, and exactly 121 samples, sample \<open>i\<close> being
  the signed 16-bit little-endian value of bytes \<open>2 i + 1\<close> and \<open>2 i + 2\<close>, so that the
  sample region starts at byte 1 and shares it with the sequence number. Once the
  2-second guard has passed, the handler appends exactly these samples to
  \<open>audio_samples\<close>, and to \<open>recording\<close> when recording is active.
\<close>

theorem packet_decoded_and_appended:
  assumes "243 \<le> length data"
  shows "\<exists>samples.
     parse_packet data = Inr (unat (word_cat (data ! 1) (data ! 0) :: 16 word), samples)
   \<and> length samples = 121
   \<and> (\<forall>i<121. samples ! i = sint (word_cat (data ! (2 * i + 2)) (data ! (2 * i + 1)) :: 16 word))
   \<and> (\<forall>now t0 s. start_time s = Some t0 \<longrightarrow> 2000000 \<le> now - t0 \<longrightarrow>
         notification_handler now data s =
           (None, s\<lparr>audio_samples := audio_samples s @ samples,
                    recording := (if is_recording s then recording s @ samples
                                  else recording s)\<rparr>))"
proof -
  let ?samples = "map (\<lambda>i. signed16 (unat (data ! (2 * i + 1)) + 256 * unat (data ! (2 * i + 2)))) [0..<121]"
  have p: "parse_packet data = Inr (unat (word_cat (data ! 1) (data ! 0) :: 16 word), ?samples)"
    using parse_packet_long [OF assms] by (simp only: unat_word_cat_bytes)
  have l: "length ?samples = 121" by simp
  have n: "\<forall>i<121. ?samples ! i = sint (word_cat (data ! (2 * i + 2)) (data ! (2 * i + 1)) :: 16 word)"
    by (simp add: signed16_sint)
  have h: "\<forall>now t0 s. start_time s = Some t0 \<longrightarrow> 2000000 \<le> now - t0 \<longrightarrow>
         notification_handler now data s =
           (None, s\<lparr>audio_samples := audio_samples s @ ?samples,
                    recording := (if is_recording s then recording s @ ?samples
                                  else recording s)\<rparr>)"
    using handler_accepts [OF p] by blast
  from p l n h show ?thesis by blast
qed

theorem packet_decoded_and_appended_witness:
  "243 \<le> length (replicate 243 (1 :: byte))
   \<and> start_time (initial_state\<lparr>is_recording := True, start_time := Some 0\<rparr>) = Some 0
   \<and> (2000000 :: int) \<le> 2000000 - 0
   \<and> (\<exists>samples.
         parse_packet (replicate 243 1) = Inr (257, samples)
       \<and> length samples = 121
       \<and> samples ! 0 = 257
       \<and> notification_handler 2000000 (replicate 243 1)
            (initial_state\<lparr>is_recording := True, start_time := Some 0\<rparr>) =
          (None, initial_state\<lparr>is_recording := True, start_time := Some 0,
                   audio_samples := samples, recording := samples\<rparr>))"
proof -
  let ?d = "replicate 243 (1 :: byte)"
  let ?s = "initial_state\<lparr>is_recording := True, start_time := Some 0\<rparr>"
  have h: "243 \<le> length ?d" by simp
  have t: "start_time ?s = Some 0" by simp
  have g: "(2000000 :: int) \<le> 2000000 - 0" by simp
  from packet_decoded_and_appended [OF h] obtain samples where
    p: "parse_packet ?d = Inr (unat (word_cat (?d ! 1) (?d ! 0) :: 16 word), samples)"
    and l: "length samples = 121"
    and n: "\<forall>i<121. samples ! i = sint (word_cat (?d ! (2 * i + 2)) (?d ! (2 * i + 1)) :: 16 word)"
    and a: "\<forall>now t0 s. start_time s = Some t0 \<longrightarrow> 2000000 \<le> now - t0 \<longrightarrow>
         notification_handler now ?d s =
           (None, s\<lparr>audio_samples := audio_samples s @ samples,
                    recording := (if is_recording s then recording s @ samples
                                  else recording s)\<rparr>)"
    by blast
  have q: "unat (word_cat (?d ! 1) (?d ! 0) :: 16 word) = 257"
    by (simp add: unat_word_cat_bytes)
  have n0: "samples ! 0 = 257"
    using n by (simp add: signed16_sint [symmetric] signed16_def)
  have "notification_handler 2000000 ?d ?s =
      (None, ?s\<lparr>audio_samples := audio_samples ?s @ samples,
                recording := (if is_recording ?s then recording ?s @ samples else recording ?s)\<rparr>)"
    using a t g by blast
  then have "notification_handler 2000000 ?d ?s =
      (None, initial_state\<lparr>is_recording := True, start_time := Some 0,
                   audio_samples := samples, recording := samples\<rparr>)"
    by (simp add: initial_state_def)
  with h t g p l n0 q show ?thesis by auto
qed

text \<open>
  C2. A packet shorter than 243 bytes does not decode: \<^verbatim>\<open>struct.unpack\<close> raises. The
  handler leaves the whole state as it was, both buffers and the streaming flag
  included, whatever the clock and the state are; past the guard its outcome is the
  decode error. The packet is dropped: the notifications that follow are delivered as
  if it had not been there, and the command loop goes on.
\<close>

theorem short_packet_dropped:
  assumes "length data < 243"
  shows "parse_packet data = Inl StructError
   \<and> snd (notification_handler now data s) = s
   \<and> (start_time s = Some t0 \<and> 2000000 \<le> now - t0 \<longrightarrow>
        notification_handler now data s = (Some StructError, s))
   \<and> deliver ((now, data) # ps) s = deliver ps s
   \<and> command_loop (Notification now data # es) w = command_loop es w"
proof -
  have p: "parse_packet data = Inl StructError" by (rule parse_packet_short [OF assms])
  have u: "snd (notification_handler now data s') = s'" for s'
    by (rule handler_rejects [OF p])
  have e: "start_time s = Some t0 \<and> 2000000 \<le> now - t0 \<longrightarrow>
        notification_handler now data s = (Some StructError, s)"
    by (simp add: notification_handler_def p)
  have d: "deliver ((now, data) # ps) s = deliver ps s" by (simp add: u)
  have c: "command_loop (Notification now data # es) w = command_loop es w" by (simp add: u)
  from p u [of s] e d c show ?thesis by blast
qed

theorem short_packet_dropped_witness:
  "length (replicate 242 (7 :: byte)) < 243
   \<and> parse_packet (replicate 242 (7 :: byte)) = Inl StructError
   \<and> notification_handler 5000000 (replicate 242 (7 :: byte))
        (initial_state\<lparr>is_streaming := True, is_recording := True, start_time := Some 0\<rparr>) =
      (Some StructError, initial_state\<lparr>is_streaming := True, is_recording := True, start_time := Some 0\<rparr>)"
proof -
  have h: "length (replicate 242 (7 :: byte)) < 243" by simp
  from short_packet_dropped [OF h, of 5000000 "initial_state\<lparr>is_streaming := True, is_recording := True, start_time := Some 0\<rparr>" 0]
  show ?thesis using h by simp
qed

subsection \<open>The guard and the two buffers\<close>

lemma handler_flags:
  "is_recording (snd (notification_handler now data s)) = is_recording s"
  "is_streaming (snd (notification_handler now data s)) = is_streaming s"
  "start_time (snd (notification_handler now data s)) = start_time s"
  by (simp_all add: notification_handler_def Let_def split: option.splits sum.splits prod.splits)

lemma deliver_flags:
  "is_recording (deliver ps s) = is_recording s"
  "is_streaming (deliver ps s) = is_streaming s"
  "start_time (deliver ps s) = start_time s"
  by (induction ps s rule: deliver.induct) (simp_all add: handler_flags)

lemma handler_early:
  "start_time s = Some t0 \<Longrightarrow> now - t0 < 2000000 \<Longrightarrow> notification_handler now data s = (None, s)"
  by (simp add: notification_handler_def)

lemma handler_recording:
  assumes "start_time s = Some t0"
  shows "recording (snd (notification_handler now data s)) =
    recording s @ (if is_recording s \<and> 2000000 \<le> now - t0 then packet_samples data else [])"
  using assms
  by (simp add: notification_handler_def packet_samples_def Let_def split: sum.splits prod.splits)

lemma handler_audio:
  assumes "start_time s = Some t0"
  shows "audio_samples (snd (notification_handler now data s)) =
    audio_samples s @ (if 2000000 \<le> now - t0 then packet_samples data else [])"
  using assms
  by (simp add: notification_handler_def packet_samples_def Let_def split: sum.splits prod.splits)

lemma deliver_recording:
  assumes "start_time s = Some t0" "is_recording s"
  shows "recording (deliver ps s) =
    recording s @ concat (map (\<lambda>p. packet_samples (snd p)) (after_guard t0 ps))"
  using assms
proof (induction ps arbitrary: s)
  case Nil
  then show ?case by (simp add: after_guard_def)
next
  case (Cons p ps)
  obtain now data where p: "p = (now, data)" by (cases p)
  let ?s = "snd (notification_handler now data s)"
  have "recording (deliver ps ?s) =
      recording ?s @ concat (map (\<lambda>p. packet_samples (snd p)) (after_guard t0 ps))"
    using Cons.prems by (intro Cons.IH) (simp_all add: handler_flags)
  then show ?case
    using Cons.prems by (simp add: p handler_recording after_guard_def)
qed

lemma deliver_audio:
  assumes "start_time s = Some t0"
  shows "audio_samples (deliver ps s) =
    audio_samples s @ concat (map (\<lambda>p. packet_samples (snd p)) (after_guard t0 ps))"
  using assms
proof (induction ps arbitrary: s)
  case Nil
  then show ?case by (simp add: after_guard_def)
next
  case (Cons p ps)
  obtain now data where p: "p = (now, data)" by (cases p)
  let ?s = "snd (notification_handler now data s)"
  have "audio_samples (deliver ps ?s) =
      audio_samples ?s @ concat (map (\<lambda>p. packet_samples (snd p)) (after_guard t0 ps))"
    using Cons.prems by (intro Cons.IH) (simp_all add: handler_flags)
  then show ?case
    using Cons.prems by (simp add: p handler_audio after_guard_def)
qed

lemma handler_recording_inactive:
  "\<not> is_recording s \<Longrightarrow> recording (snd (notification_handler now data s)) = recording s"
  by (simp add: notification_handler_def Let_def split: option.splits sum.splits prod.splits)

lemma deliver_recording_inactive:
  "\<not> is_recording s \<Longrightarrow> recording (deliver ps s) = recording s"
  by (induction ps s rule: deliver.induct) (simp_all add: handler_flags handler_recording_inactive)

lemma length_packet_samples: "length (packet_samples d) = (if 243 \<le> length d then 121 else 0)"
proof (cases "243 \<le> length d")
  case True
  then show ?thesis by (simp add: packet_samples_def parse_packet_long)
next
  case False
  then have "length d < 243" by simp
  then show ?thesis by (simp add: packet_samples_def parse_packet_short)
qed

text \<open>
  C4. With \<open>start_time\<close> set, a notification that arrives less than 2 seconds after it
  is discarded: the handler returns without an error and leaves the state, and so both
  buffers, as it was. Hence, while recording is active, the recording buffer grows by
  exactly the samples of the packets that arrive at least 2 seconds after
  \<open>start_time\<close>, in order: its length grows by their total sample count, which from an
  empty buffer and with packets of at least 243 bytes is 121 for each such packet.
\<close>

theorem early_notifications_discarded:
  assumes "start_time s = Some t0"
  shows "(now - t0 < 2000000 \<longrightarrow> notification_handler now data s = (None, s))
   \<and> (is_recording s \<longrightarrow>
        recording (deliver ps s) =
          recording s @ concat (map (\<lambda>p. packet_samples (snd p)) (after_guard t0 ps))
      \<and> length (recording (deliver ps s)) =
          length (recording s) +
          sum_list (map (\<lambda>p. length (packet_samples (snd p))) (after_guard t0 ps)))
   \<and> (is_recording s \<and> recording s = [] \<and> (\<forall>p \<in> set ps. 243 \<le> length (snd p)) \<longrightarrow>
        length (recording (deliver ps s)) = 121 * length (after_guard t0 ps))"
proof -
  have a: "now - t0 < 2000000 \<longrightarrow> notification_handler now data s = (None, s)"
    using assms by (simp add: handler_early)
  have b: "recording (deliver ps s) =
          recording s @ concat (map (\<lambda>p. packet_samples (snd p)) (after_guard t0 ps))"
    if "is_recording s"
    using assms that by (rule deliver_recording)
  have c: "length (recording (deliver ps s)) =
          length (recording s) +
          sum_list (map (\<lambda>p. length (packet_samples (snd p))) (after_guard t0 ps))"
    if "is_recording s"
    by (simp add: b [OF that] length_concat comp_def)
  have d: "length (recording (deliver ps s)) = 121 * length (after_guard t0 ps)"
    if r: "is_recording s" and e: "recording s = []" and l: "\<forall>p \<in> set ps. 243 \<le> length (snd p)"
  proof -
    have m: "map (\<lambda>p. length (packet_samples (snd p))) (after_guard t0 ps) =
        map (\<lambda>p. 121) (after_guard t0 ps)"
      using l by (intro map_cong refl) (simp add: after_guard_def length_packet_samples)
    show ?thesis
      by (simp only: c [OF r] e m) (simp add: sum_list_triv)
  qed
  from a b c d show ?thesis by blast
qed

theorem early_notifications_discarded_witness:
  "start_time (initial_state\<lparr>is_recording := True, is_streaming := True, start_time := Some 0\<rparr>) = Some 0
   \<and> notification_handler 1999999 (replicate 243 1)
        (initial_state\<lparr>is_recording := True, is_streaming := True, start_time := Some 0\<rparr>) =
      (None, initial_state\<lparr>is_recording := True, is_streaming := True, start_time := Some 0\<rparr>)
   \<and> length (recording (deliver [(1999999, replicate 243 1), (2000000, replicate 243 2)]
        (initial_state\<lparr>is_recording := True, is_streaming := True, start_time := Some 0\<rparr>))) = 121"
proof -
  let ?s = "initial_state\<lparr>is_recording := True, is_streaming := True, start_time := Some 0\<rparr>"
  have h: "start_time ?s = Some 0" by simp
  have r: "is_recording ?s \<and> recording ?s = []" by (simp add: initial_state_def)
  have g: "after_guard 0 [(1999999, replicate 243 1), (2000000, replicate 243 2)] =
      [(2000000, replicate 243 2)]"
    by (simp add: after_guard_def)
  have w: "\<forall>p \<in> set [(1999999, replicate 243 1), (2000000, replicate 243 (2 :: byte))].
      243 \<le> length (snd p)"
    by simp
  note t = early_notifications_discarded [OF h, of 1999999 "replicate 243 1"
      "[(1999999, replicate 243 1), (2000000, replicate 243 2)]"]
  from t have 1: "notification_handler 1999999 (replicate 243 1) ?s = (None, ?s)"
    by simp
  from t r w have "length (recording
        (deliver [(1999999, replicate 243 1), (2000000, replicate 243 2)] ?s)) =
      121 * length (after_guard 0 [(1999999, replicate 243 1), (2000000, replicate 243 (2 :: byte))])"
    by blast
  then have 2: "length (recording
        (deliver [(1999999, replicate 243 1), (2000000, replicate 243 2)] ?s)) = 121"
    unfolding g by (simp del: deliver.simps)
  from h 1 2 show ?thesis by (simp del: deliver.simps)
qed

subsection \<open>Recording\<close>

lemma start_stream_recording:
  "\<not> is_recording s \<Longrightarrow> start_stream ar now c s = (r, c', s') \<Longrightarrow>
   \<not> is_recording s' \<and> recording s' = recording s"
  by (auto simp: start_stream_def Let_def deliver_flags deliver_recording_inactive
      split: prod.splits option.splits)

lemma on_start_stream_idle:
  "\<not> is_recording (st w) \<Longrightarrow>
   \<not> is_recording (st (on_start_stream i w)) \<and> recording (st (on_start_stream i w)) = recording (st w)"
  by (auto simp: on_start_stream_def split: prod.splits dest: start_stream_recording)

lemma on_stop_idle:
  "\<not> is_recording (st w) \<Longrightarrow>
   \<not> is_recording (st (snd (on_stop i w))) \<and> recording (st (snd (on_stop i w))) = recording (st w)"
  by (simp add: on_stop_def split: prod.splits sum.splits)

lemma on_save_record_st: "st (snd (on_save_record i w)) = st w"
  by (simp add: on_save_record_def split: prod.splits)

lemma on_exit_idle:
  "is_recording (st (snd (on_exit i w))) = is_recording (st w) \<and>
   recording (st (snd (on_exit i w))) = recording (st w)"
  by (simp add: on_exit_def split: prod.splits sum.splits)

lemma iteration_idle:
  assumes "\<not> is_recording (st w)" "command i \<noteq> ''start_record''"
  shows "\<not> is_recording (st (snd (iteration i w))) \<and>
         recording (st (snd (iteration i w))) = recording (st w)"
proof -
  let ?w1 = "on_start_stream i w"
  obtain r2 w2 where s2: "on_stop i ?w1 = (r2, w2)" by (cases "on_stop i ?w1")
  obtain r4 w4 where s4: "on_save_record i w2 = (r4, w4)" by (cases "on_save_record i w2")
  obtain r5 w5 where s5: "on_exit i w4 = (r5, w5)" by (cases "on_exit i w4")
  have 1: "\<not> is_recording (st ?w1)" "recording (st ?w1) = recording (st w)"
    using on_start_stream_idle [OF assms(1)] by simp_all
  have 2: "\<not> is_recording (st w2)" "recording (st w2) = recording (st w)"
    using on_stop_idle [OF 1(1), of i] 1(2) s2 by simp_all
  have 3: "on_start_record i w2 = w2"
    using assms(2) by (simp add: on_start_record_def)
  have 4: "\<not> is_recording (st w4)" "recording (st w4) = recording (st w)"
    using 2 on_save_record_st [of i w2] s4 by simp_all
  have 5: "\<not> is_recording (st w5)" "recording (st w5) = recording (st w)"
    using 4 on_exit_idle [of i w4] s5 by simp_all
  have "snd (iteration i w) = w2 \<or> snd (iteration i w) = w4 \<or> snd (iteration i w) = w5"
    by (simp add: iteration_def Let_def s2 3 s4 s5 split: option.splits)
  with 2 4 5 show ?thesis by auto
qed

lemma command_loop_idle:
  assumes "no_start_record es" "\<not> is_recording (st w)"
  shows "\<not> is_recording (st (snd (command_loop es w))) \<and>
         recording (st (snd (command_loop es w))) = recording (st w)"
  using assms
proof (induction es w rule: command_loop.induct)
  case (1 w)
  then show ?case by simp
next
  case (2 now data es w)
  let ?w = "if notifying (cl w) then w\<lparr>st := snd (notification_handler now data (st w))\<rparr> else w"
  have "\<not> is_recording (st ?w)" "recording (st ?w) = recording (st w)"
    using "2.prems" by (simp_all add: handler_flags handler_recording_inactive)
  moreover have "no_start_record es" using "2.prems" by (simp add: no_start_record_def)
  ultimately show ?case using "2.IH" by simp
next
  case (3 i es w)
  have c: "command i \<noteq> ''start_record''" and r: "no_start_record es"
    using "3.prems" by (simp_all add: no_start_record_def)
  note it = iteration_idle [OF "3.prems"(2) c]
  show ?case
  proof (cases "iteration i w")
    case (Pair res w')
    with it have w': "\<not> is_recording (st w')" "recording (st w') = recording (st w)" by simp_all
    show ?thesis
    proof (cases res)
      case (Inl e)
      with Pair w' show ?thesis by simp
    next
      case (Inr b)
      show ?thesis
      proof (cases b)
        case True
        with Pair Inr w' show ?thesis by simp
      next
        case False
        with Pair Inr have "command_loop (Input i # es) w = command_loop es w'" by simp
        moreover have "\<not> is_recording (st (snd (command_loop es w'))) \<and>
          recording (st (snd (command_loop es w'))) = recording (st w')"
          using "3.IH" Pair Inr False r w' by simp
        ultimately show ?thesis using w' by simp
      qed
    qed
  qed
qed

text \<open>
  C5. While recording is inactive the handler never touches the recording buffer: any
  sequence of notifications leaves it as it was, so an empty buffer keeps length 0. In
  particular, in a run of the command loop from the initial state in which
  \<^verbatim>\<open>start_record\<close> is never issued, the recording buffer has length 0 at the end,
  whatever is streamed.
\<close>

theorem recording_stays_empty_while_inactive:
  "(\<not> is_recording s \<longrightarrow> recording (deliver ps s) = recording s)
   \<and> (\<not> is_recording s \<and> recording s = [] \<longrightarrow> length (recording (deliver ps s)) = 0)
   \<and> (no_start_record es \<longrightarrow>
        length (recording (st (snd (command_loop es (initial_world fl))))) = 0)"
proof -
  have "\<not> is_recording (st (initial_world fl))" "recording (st (initial_world fl)) = []"
    by (simp_all add: initial_world_def initial_state_def)
  then have "no_start_record es \<longrightarrow>
        length (recording (st (snd (command_loop es (initial_world fl))))) = 0"
    using command_loop_idle [of es "initial_world fl"] by simp
  then show ?thesis by (simp add: deliver_recording_inactive)
qed

theorem recording_stays_empty_while_inactive_witness:
  "\<not> is_recording (initial_state\<lparr>is_streaming := True, start_time := Some 0\<rparr>)
   \<and> recording (initial_state\<lparr>is_streaming := True, start_time := Some 0\<rparr>) = []
   \<and> length (recording (deliver [(5000000, replicate 243 1)]
        (initial_state\<lparr>is_streaming := True, start_time := Some 0\<rparr>))) = 0
   \<and> no_start_record
        [Input \<lparr>command = ''start_stream'', filename = [], creatable = True, clock = 0, arrivals = []\<rparr>,
         Notification 5000000 (replicate 243 1)]
   \<and> length (recording (st (snd (command_loop
        [Input \<lparr>command = ''start_stream'', filename = [], creatable = True, clock = 0, arrivals = []\<rparr>,
         Notification 5000000 (replicate 243 1)] (initial_world []))))) = 0"
proof -
  let ?s = "initial_state\<lparr>is_streaming := True, start_time := Some 0\<rparr>"
  let ?es = "[Input \<lparr>command = ''start_stream'', filename = [], creatable = True, clock = 0, arrivals = []\<rparr>,
         Notification 5000000 (replicate 243 1)]"
  have h: "\<not> is_recording ?s \<and> recording ?s = []" by (simp add: initial_state_def)
  have n: "no_start_record ?es" by (simp add: no_start_record_def)
  from recording_stays_empty_while_inactive [of ?s "[(5000000, replicate 243 1)]" ?es "[]"] h n
  show ?thesis by blast
qed

text \<open>
  C6. \<^verbatim>\<open>start_recording\<close> has no guard of its own: in every state, also one in which
  recording is already active, it empties the recording buffer and returns \<^verbatim>\<open>True\<close>.
\<close>

theorem start_recording_resets:
  "start_recording s = (True, s\<lparr>recording := []\<rparr>)
   \<and> recording (snd (start_recording (s\<lparr>is_recording := True\<rparr>))) = []"
  by (simp add: start_recording_def)

subsection \<open>Packing samples\<close>

lemma length_packed: "length (concat (map le16_bytes rec)) = 2 * length rec"
  by (induction rec) (simp_all add: le16_bytes_def)

lemma packed_nth:
  assumes "i < length rec"
  shows "concat (map le16_bytes rec) ! (2 * i) = word_of_int (rec ! i mod 256)"
    and "concat (map le16_bytes rec) ! (2 * i + 1) = word_of_int ((rec ! i mod 65536) div 256)"
  using assms
proof (induction rec arbitrary: i)
  case Nil
  case 1 then show ?case by simp
  case 2 then show ?case by simp
next
  case (Cons v rec)
  case 1 then show ?case using Cons.IH(1) [of "i - 1"] by (cases i) (simp_all add: le16_bytes_def)
  case 2 then show ?case using Cons.IH(2) [of "i - 1"] by (cases i) (simp_all add: le16_bytes_def)
qed

lemma le16_values_packed:
  "le16_values (concat (map le16_bytes rec)) = map (\<lambda>v. nat (v mod 65536)) rec"
proof (induction rec)
  case Nil
  then show ?case by simp
next
  case (Cons v rec)
  have lo: "unat (word_of_int (v mod 256) :: byte) = nat (v mod 256)"
    by (simp add: unat_eq_nat_uint uint_word_of_int del: nat_uint_eq)
  have b: "0 \<le> v mod 65536 div 256" "v mod 65536 div 256 < 256"
    by (simp_all add: div_less_iff_less_mult pos_imp_zdiv_nonneg_iff)
  have hi: "unat (word_of_int (v mod 65536 div 256) :: byte) = nat (v mod 65536 div 256)"
    using b by (simp add: unat_eq_nat_uint uint_word_of_int del: nat_uint_eq)
  have "v mod 65536 = v mod 65536 mod 256 + 256 * (v mod 65536 div 256)" by simp
  also have "v mod 65536 mod 256 = v mod 256"
    by (rule mod_mod_cancel) simp
  finally have "nat (v mod 65536) = nat (v mod 256 + 256 * (v mod 65536 div 256))"
    by (rule arg_cong)
  also have "\<dots> = nat (v mod 256) + nat (256 * (v mod 65536 div 256))"
    using b by (intro nat_add_distrib) simp_all
  also have "nat (256 * (v mod 65536 div 256)) = 256 * nat (v mod 65536 div 256)"
    by (simp add: nat_mult_distrib)
  finally have "nat (v mod 256) + 256 * nat (v mod 65536 div 256) = nat (v mod 65536)"
    by simp
  then show ?case using Cons.IH by (simp add: le16_bytes_def lo hi)
qed

lemma signed16_mod: "in_int16 v \<Longrightarrow> signed16 (nat (v mod 65536)) = v"
proof (cases "0 \<le> v")
  case True
  assume "in_int16 v"
  then have "v mod 65536 = v" using True by (simp add: in_int16_def)
  then show ?thesis using True \<open>in_int16 v\<close> by (simp add: signed16_def in_int16_def)
next
  case False
  assume a: "in_int16 v"
  have "v mod 65536 = (v + 65536) mod 65536" by simp
  also have "\<dots> = v + 65536"
    using a False by (intro mod_pos_pos_trivial) (simp_all add: in_int16_def)
  finally show ?thesis using a False by (simp add: signed16_def in_int16_def)
qed

lemma unpack_pack:
  assumes "list_all in_int16 rec"
  shows "unpack_h (length rec) (concat (map le16_bytes rec)) = Inr rec"
proof -
  have "map signed16 (map (\<lambda>v. nat (v mod 65536)) rec) = rec"
    using assms by (induction rec) (simp_all add: signed16_mod)
  then show ?thesis
    by (simp add: unpack_h_def length_packed le16_values_packed)
qed

subsection \<open>The saved file\<close>

lemma in_int16_signed16: "u < 65536 \<Longrightarrow> in_int16 (signed16 u)"
  by (simp add: in_int16_def signed16_def)

lemma le16_values_bound: "\<forall>u \<in> set (le16_values b). u < 65536"
proof (induction b rule: le16_values.induct)
  case (1 lo hi bs)
  have "unat lo < 256" "unat hi < 256"
    using unsigned_less [of lo, where 'a = nat] unsigned_less [of hi, where 'a = nat] by simp_all
  then have "unat lo + 256 * unat hi < 65536" by simp
  with 1 show ?case by simp
qed simp_all

lemma packet_samples_in_int16: "list_all in_int16 (packet_samples d)"
proof (cases "parse_packet d")
  case (Inl e)
  then show ?thesis by (simp add: packet_samples_def)
next
  case (Inr r)
  then have "packet_samples d = map signed16 (le16_values (slice_bytes d 1 243))"
    by (auto simp: packet_samples_def parse_packet_def unpack_h_def split: sum.splits if_splits)
  then show ?thesis
    using le16_values_bound [of "slice_bytes d 1 243"]
    by (simp add: list_all_iff in_int16_signed16)
qed

lemma handler_in_int16:
  assumes "list_all in_int16 (recording s)"
  shows "list_all in_int16 (recording (snd (notification_handler now data s)))"
proof (cases "start_time s")
  case None
  then show ?thesis using assms by (simp add: notification_handler_def)
next
  case (Some t0)
  then show ?thesis
    using assms by (simp add: handler_recording packet_samples_in_int16)
qed

lemma deliver_in_int16:
  "list_all in_int16 (recording s) \<Longrightarrow> list_all in_int16 (recording (deliver ps s))"
  by (induction ps s rule: deliver.induct) (simp_all add: handler_in_int16)

lemma on_start_stream_in_int16:
  "list_all in_int16 (recording (st w)) \<Longrightarrow> list_all in_int16 (recording (st (on_start_stream i w)))"
  by (auto simp: on_start_stream_def start_stream_def Let_def deliver_in_int16
      split: prod.splits option.splits)

lemma on_stop_recording: "recording (st (snd (on_stop i w))) = recording (st w)"
  by (simp add: on_stop_def split: prod.splits sum.splits)

lemma on_start_record_in_int16:
  "list_all in_int16 (recording (st w)) \<Longrightarrow> list_all in_int16 (recording (st (on_start_record i w)))"
  by (simp add: on_start_record_def start_recording_def)

lemma iteration_in_int16:
  assumes "list_all in_int16 (recording (st w))"
  shows "list_all in_int16 (recording (st (snd (iteration i w))))"
proof -
  let ?w1 = "on_start_stream i w"
  obtain r2 w2 where s2: "on_stop i ?w1 = (r2, w2)" by (cases "on_stop i ?w1")
  let ?w3 = "on_start_record i w2"
  obtain r4 w4 where s4: "on_save_record i ?w3 = (r4, w4)" by (cases "on_save_record i ?w3")
  obtain r5 w5 where s5: "on_exit i w4 = (r5, w5)" by (cases "on_exit i w4")
  have 2: "list_all in_int16 (recording (st w2))"
    using on_start_stream_in_int16 [OF assms, of i] on_stop_recording [of i ?w1] s2 by simp
  have 4: "list_all in_int16 (recording (st w4))"
    using on_start_record_in_int16 [OF 2, of i] on_save_record_st [of i ?w3] s4 by simp
  have 5: "list_all in_int16 (recording (st w5))"
    using 4 on_exit_idle [of i w4] s5 by simp
  have "snd (iteration i w) = w2 \<or> snd (iteration i w) = w4 \<or> snd (iteration i w) = w5"
    by (simp add: iteration_def Let_def s2 s4 s5 split: option.splits)
  with 2 4 5 show ?thesis by auto
qed

lemma command_loop_in_int16:
  "list_all in_int16 (recording (st w)) \<Longrightarrow>
   list_all in_int16 (recording (st (snd (command_loop es w))))"
proof (induction es w rule: command_loop.induct)
  case (1 w)
  then show ?case by simp
next
  case (2 now data es w)
  then show ?case by (simp add: handler_in_int16)
next
  case (3 i es w)
  note it = iteration_in_int16 [OF "3.prems", of i]
  show ?case
  proof (cases "iteration i w")
    case (Pair res w')
    with it have w': "list_all in_int16 (recording (st w'))" by simp
    show ?thesis
    proof (cases res)
      case (Inl e)
      with Pair w' show ?thesis by simp
    next
      case (Inr b)
      show ?thesis
      proof (cases b)
        case True
        with Pair Inr w' show ?thesis by simp
      next
        case False
        then show ?thesis using "3.IH" Pair Inr w' by simp
      qed
    qed
  qed
qed

text \<open>
  C7. Saving a buffer of \<open>K\<close> samples, each a signed 16-bit value, to a file that can be
  created writes a file with 1 channel, 2 bytes per sample, frame rate 32000 and \<open>K\<close>
  frames, whose data is exactly \<open>2 K\<close> bytes: bytes \<open>2 i\<close> and \<open>2 i + 1\<close> are sample \<open>i\<close> as
  a little-endian signed 16-bit value, in the order of the buffer. Every recording
  buffer a run of the command loop can produce consists of such values. When the file
  cannot be created, as with the empty name, \<^verbatim>\<open>open\<close> raises and nothing is written.
\<close>

theorem saved_wav_file:
  "list_all in_int16 (recording (st (snd (command_loop es (initial_world fl)))))
   \<and> (fname \<noteq> [] \<and> can_create \<and> list_all in_int16 rec \<longrightarrow>
       (\<exists>w. save_recording can_create fname rec fs = (None, fs(fname \<mapsto> w))
          \<and> nchannels w = 1 \<and> sampwidth w = 2 \<and> framerate w = 32000
          \<and> nframes w = length rec
          \<and> length (frames w) = 2 * length rec
          \<and> (\<forall>i<length rec.
                sint (word_cat (frames w ! (2 * i + 1)) (frames w ! (2 * i)) :: 16 word) = rec ! i)))
   \<and> (fname = [] \<or> \<not> can_create \<longrightarrow> save_recording can_create fname rec fs = (Some OSError, fs))"
proof -
  have reach: "list_all in_int16 (recording (st (snd (command_loop es (initial_world fl)))))"
    by (rule command_loop_in_int16) (simp add: initial_world_def initial_state_def)
  have save: "\<exists>w. save_recording can_create fname rec fs = (None, fs(fname \<mapsto> w))
          \<and> nchannels w = 1 \<and> sampwidth w = 2 \<and> framerate w = 32000
          \<and> nframes w = length rec
          \<and> length (frames w) = 2 * length rec
          \<and> (\<forall>i<length rec.
                sint (word_cat (frames w ! (2 * i + 1)) (frames w ! (2 * i)) :: 16 word) = rec ! i)"
    if o: "fname \<noteq> []" "can_create" and r: "list_all in_int16 rec"
  proof -
    let ?data = "concat (map le16_bytes rec)"
    let ?w = "\<lparr>nchannels = 1, sampwidth = 2, framerate = 32000, nframes = length rec, frames = ?data\<rparr>"
    have p: "pack_h rec = Inr ?data" using r by (simp add: pack_h_def)
    have s: "save_recording can_create fname rec fs = (None, fs(fname \<mapsto> ?w))"
      using o by (simp add: save_recording_def p writeframes_def SAMPLE_RATE_def length_packed)
    have n: "sint (word_cat (?data ! (2 * i + 1)) (?data ! (2 * i)) :: 16 word) = rec ! i"
      if i: "i < length rec" for i
    proof -
      have "map signed16 (le16_values ?data) = rec"
        using unpack_pack [OF r] by (simp add: unpack_h_def length_packed)
      then have "rec ! i = signed16 (le16_values ?data ! i)"
        using i by (metis length_map nth_map)
      also have "le16_values ?data ! i = unat (?data ! (2 * i)) + 256 * unat (?data ! (2 * i + 1))"
        using i by (intro le16_values_nth) (simp add: length_packed)
      finally show ?thesis by (simp only: signed16_sint)
    qed
    from s n show ?thesis by (intro exI [of _ ?w]) (simp add: length_packed)
  qed
  have fail: "save_recording can_create fname rec fs = (Some OSError, fs)"
    if "fname = [] \<or> \<not> can_create"
    using that by (auto simp: save_recording_def)
  from reach save fail show ?thesis by blast
qed

theorem saved_wav_file_witness:
  "''a.wav'' \<noteq> [] \<and> list_all in_int16 [1, - 2, 32767]
   \<and> (\<exists>w. save_recording True ''a.wav'' [1, - 2, 32767] Map.empty = (None, [''a.wav'' \<mapsto> w])
          \<and> framerate w = 32000 \<and> nframes w = 3 \<and> length (frames w) = 6)
   \<and> save_recording True [] [1, - 2, 32767] Map.empty = (Some OSError, Map.empty)
   \<and> save_recording False ''dir/a.wav'' [1, - 2, 32767] Map.empty = (Some OSError, Map.empty)"
proof -
  have h: "list_all in_int16 [1, - 2, 32767]" by (simp add: in_int16_def)
  have n: "''a.wav'' \<noteq> []" by simp
  from saved_wav_file [of "[]" "[]" "''a.wav''" True "[1, - 2, 32767]" Map.empty] h n
  obtain w where "save_recording True ''a.wav'' [1, - 2, 32767] Map.empty = (None, [''a.wav'' \<mapsto> w])"
    "framerate w = 32000" "nframes w = length [1, - 2, 32767 :: int]"
    "length (frames w) = 2 * length [1, - 2, 32767 :: int]"
    by blast
  then have 1: "\<exists>w. save_recording True ''a.wav'' [1, - 2, 32767] Map.empty = (None, [''a.wav'' \<mapsto> w])
          \<and> framerate w = 32000 \<and> nframes w = 3 \<and> length (frames w) = 6"
    by auto
  from saved_wav_file [of "[]" "[]" "[]" True "[1, - 2, 32767]" Map.empty]
  have 2: "save_recording True [] [1, - 2, 32767] Map.empty = (Some OSError, Map.empty)"
    by blast
  from saved_wav_file [of "[]" "[]" "''dir/a.wav''" False "[1, - 2, 32767]" Map.empty]
  have 3: "save_recording False ''dir/a.wav'' [1, - 2, 32767] Map.empty = (Some OSError, Map.empty)"
    by blast
  from h n 1 2 3 show ?thesis by blast
qed

subsection \<open>Stopping the stream\<close>

lemma next_fault_ok:
  "gatt_calls_succeed (Suc n) c \<Longrightarrow>
   next_fault c = (False, c\<lparr>faults := drop 1 (faults c)\<rparr>) \<and>
   gatt_calls_succeed n (c\<lparr>faults := drop 1 (faults c)\<rparr>)"
  by (cases "faults c") (auto simp: next_fault_def gatt_calls_succeed_def)

lemma next_fault_cases:
  "\<not> gatt_calls_succeed (Suc n) c \<Longrightarrow>
   fst (next_fault c) \<or>
   (next_fault c = (False, c\<lparr>faults := drop 1 (faults c)\<rparr>) \<and>
    \<not> gatt_calls_succeed n (c\<lparr>faults := drop 1 (faults c)\<rparr>))"
  by (cases "faults c") (auto simp: next_fault_def gatt_calls_succeed_def)

lemma stop_stream_idle: "stop_stream c False t0 = (Inr False, c)"
  by (simp add: stop_stream_def)

lemma stop_stream_ok:
  assumes "gatt_calls_succeed 2 c"
  shows "stop_stream c True (Some t) = (Inr False, stopped_client c)"
proof -
  have 2: "gatt_calls_succeed (Suc (Suc 0)) c" using assms by (simp add: numeral_2_eq_2)
  note a = next_fault_ok [OF 2]
  let ?c1 = "c\<lparr>faults := drop 1 (faults c)\<rparr>"
  have w: "write_gatt_char [0] c = (None, ?c1\<lparr>written := written c @ [[0]]\<rparr>)"
    using a by (simp add: write_gatt_char_def)
  have "gatt_calls_succeed (Suc 0) (?c1\<lparr>written := written c @ [[0]]\<rparr>)"
    using a by (simp add: gatt_calls_succeed_def)
  note b = next_fault_ok [OF this]
  have "stop_notify (?c1\<lparr>written := written c @ [[0]]\<rparr>) =
      (None, stopped_client c)"
    using b by (simp add: stop_notify_def stopped_client_def drop_Suc numeral_2_eq_2 drop_tl)
  then show ?thesis by (simp add: stop_stream_def w)
qed

lemma stop_stream_fails:
  assumes "\<not> gatt_calls_succeed 2 c"
  shows "fst (stop_stream c True t0) = Inl TransportError"
proof -
  have 2: "\<not> gatt_calls_succeed (Suc (Suc 0)) c" using assms by (simp add: numeral_2_eq_2)
  from next_fault_cases [OF 2] show ?thesis
  proof
    assume "fst (next_fault c)"
    then obtain c' where "next_fault c = (True, c')" by (cases "next_fault c") auto
    then show ?thesis
      by (simp add: stop_stream_def write_gatt_char_def)
  next
    let ?c1 = "c\<lparr>faults := drop 1 (faults c)\<rparr>"
    assume a: "next_fault c = (False, ?c1) \<and> \<not> gatt_calls_succeed (Suc 0) ?c1"
    then have w: "write_gatt_char [0] c = (None, ?c1\<lparr>written := written c @ [[0]]\<rparr>)"
      by (simp add: write_gatt_char_def)
    have "\<not> gatt_calls_succeed (Suc 0) (?c1\<lparr>written := written c @ [[0]]\<rparr>)"
      using a by (simp add: gatt_calls_succeed_def)
    then have "fst (next_fault (?c1\<lparr>written := written c @ [[0]]\<rparr>))"
      using next_fault_cases [of 0 "?c1\<lparr>written := written c @ [[0]]\<rparr>"]
      by (auto simp: gatt_calls_succeed_def)
    then obtain c' where "next_fault (?c1\<lparr>written := written c @ [[0]]\<rparr>) = (True, c')"
      by (cases "next_fault (?c1\<lparr>written := written c @ [[0]]\<rparr>)") auto
    then show ?thesis
      by (simp add: stop_stream_def w stop_notify_def)
  qed
qed

lemma iteration_stop_stream_fails:
  assumes "command i = ''stop_stream''" "is_streaming (st w)" "\<not> gatt_calls_succeed 2 (cl w)"
  shows "fst (iteration i w) = Inl TransportError \<and> is_streaming (st (snd (iteration i w)))"
proof -
  have 1: "on_start_stream i w = w" using assms(1) by (simp add: on_start_stream_def)
  obtain r c where s: "stop_stream (cl w) True (start_time (st w)) = (r, c)"
    by (cases "stop_stream (cl w) True (start_time (st w))")
  with stop_stream_fails [OF assms(3), of "start_time (st w)"] have r: "r = Inl TransportError" by simp
  have "on_stop i w = (Some TransportError, w\<lparr>cl := c\<rparr>)"
    using assms(1,2) s r by (simp add: on_stop_def)
  then show ?thesis using assms(2) by (simp add: iteration_def 1)
qed

lemma streaming_world_start:
  "command_loop [Input (cmd ''start_stream'')] (initial_world (False # False # fl)) = (Waiting, streaming_world fl)"
  by (simp add: cmd_def initial_world_def streaming_world_def iteration_def on_start_stream_def
      on_stop_def on_start_record_def on_save_record_def on_exit_def start_stream_def
      start_notify_def write_gatt_char_def next_fault_def initial_state_def)

text \<open>
  Where no GATT call fails, \<^verbatim>\<open>stop_stream\<close> does what is asked of it: called while not
  streaming it does nothing and returns \<^verbatim>\<open>False\<close>; called while streaming, with
  \<open>start_time\<close> set, it writes STOP, removes the callback and returns \<^verbatim>\<open>False\<close>.
\<close>

lemma stop_stream_returns_False:
  "stop_stream c False t0 = (Inr False, c)
   \<and> (gatt_calls_succeed 2 c \<longrightarrow> stop_stream c True (Some t) = (Inr False, stopped_client c))"
  using stop_stream_idle stop_stream_ok by blast

text \<open>
  C3. \<^verbatim>\<open>stop_stream\<close> is to yield ``not streaming'' whenever it is called while
  streaming, also when the STOP write or the unsubscribe fails. The code does not: it
  has no \<^verbatim>\<open>try\<close> around the two GATT calls, as \<^verbatim>\<open>start_stream\<close> has around its own. While
  streaming, with the STOP write raising, or with the STOP write succeeding and the
  unsubscribe raising, \<^verbatim>\<open>stop_stream\<close> raises and returns nothing; in the command loop
  the command \<^verbatim>\<open>stop_stream\<close> then ends the loop with the exception and the streaming
  flag still set.
\<close>

theorem stop_stream_failure:
  "fst (stop_stream \<lparr>notifying = True, written = [[1]], faults = [True]\<rparr> True (Some 0)) =
     Inl TransportError
   \<and> fst (stop_stream \<lparr>notifying = True, written = [[1]], faults = [False, True]\<rparr> True (Some 0)) =
     Inl TransportError
   \<and> fst (command_loop [Input (cmd ''stop_stream'')] (streaming_world [True])) =
     Raised TransportError
   \<and> is_streaming (st (snd (command_loop [Input (cmd ''stop_stream'')] (streaming_world [True]))))"
  by (simp add: stop_stream_def write_gatt_char_def stop_notify_def next_fault_def
      cmd_def streaming_world_def iteration_def on_start_stream_def on_stop_def)

subsection \<open>The exit command\<close>

lemma exit_other_steps:
  assumes "command i = ''exit''"
  shows "on_start_stream i w = w" "on_stop i w = (None, w)" "on_start_record i w = w"
    "on_save_record i w = (None, w)"
  using assms
  by (simp_all add: on_start_stream_def on_stop_def on_start_record_def on_save_record_def)

lemma iteration_exit:
  "command i = ''exit'' \<Longrightarrow> iteration i w = on_exit i w"
  by (simp add: iteration_def exit_other_steps)

lemma exit_ok:
  assumes "command i = ''exit''" "is_streaming (st w)" "start_time (st w) \<noteq> None"
    "gatt_calls_succeed 2 (cl w)"
  shows "command_loop (Input i # es) w =
    (Exited, w\<lparr>st := (st w)\<lparr>is_streaming := False\<rparr>, cl := stopped_client (cl w)\<rparr>)"
proof -
  obtain t where t: "start_time (st w) = Some t" using assms(3) by auto
  have "on_exit i w = (Inr True, w\<lparr>st := (st w)\<lparr>is_streaming := False\<rparr>, cl := stopped_client (cl w)\<rparr>)"
    using assms(1,2) by (simp add: on_exit_def t stop_stream_ok [OF assms(4)])
  then show ?thesis using assms(1) by (simp add: iteration_exit)
qed

lemma exit_idle:
  assumes "command i = ''exit''" "\<not> is_streaming (st w)"
  shows "fst (command_loop (Input i # es) w) = Exited
    \<and> \<not> is_streaming (st (snd (command_loop (Input i # es) w)))
    \<and> cl (snd (command_loop (Input i # es) w)) = cl w"
  using assms by (simp add: iteration_exit on_exit_def stop_stream_idle)

lemma exit_fails:
  assumes "command i = ''exit''" "is_streaming (st w)" "\<not> gatt_calls_succeed 2 (cl w)"
  shows "fst (command_loop (Input i # es) w) = Raised TransportError
    \<and> is_streaming (st (snd (command_loop (Input i # es) w)))"
proof -
  obtain r c where s: "stop_stream (cl w) True (start_time (st w)) = (r, c)"
    by (cases "stop_stream (cl w) True (start_time (st w))")
  with stop_stream_fails [OF assms(3), of "start_time (st w)"] have r: "r = Inl TransportError"
    by simp
  have "on_exit i w = (Inl TransportError, w\<lparr>cl := c\<rparr>)"
    using assms(1,2) s r by (simp add: on_exit_def)
  then show ?thesis using assms(1,2) by (simp add: iteration_exit)
qed

lemma stop_stream_False: "stop_stream c b t0 = (Inr r, c') \<Longrightarrow> \<not> r"
  by (auto simp: stop_stream_def split: if_splits prod.splits option.splits)

lemma on_start_stream_timed: "timed w \<Longrightarrow> timed (on_start_stream i w)"
  by (auto simp: timed_def on_start_stream_def start_stream_def Let_def deliver_flags
      split: prod.splits option.splits)

lemma on_stop_timed: "timed w \<Longrightarrow> timed (snd (on_stop i w))"
  by (auto simp: timed_def on_stop_def split: prod.splits sum.splits dest: stop_stream_False)

lemma on_start_record_timed: "timed w \<Longrightarrow> timed (on_start_record i w)"
  by (simp add: timed_def on_start_record_def start_recording_def)

lemma on_exit_timed: "timed w \<Longrightarrow> timed (snd (on_exit i w))"
  by (auto simp: timed_def on_exit_def split: prod.splits sum.splits dest: stop_stream_False)

lemma iteration_timed:
  assumes "timed w"
  shows "timed (snd (iteration i w))"
proof -
  let ?w1 = "on_start_stream i w"
  obtain r2 w2 where s2: "on_stop i ?w1 = (r2, w2)" by (cases "on_stop i ?w1")
  let ?w3 = "on_start_record i w2"
  obtain r4 w4 where s4: "on_save_record i ?w3 = (r4, w4)" by (cases "on_save_record i ?w3")
  obtain r5 w5 where s5: "on_exit i w4 = (r5, w5)" by (cases "on_exit i w4")
  have 2: "timed w2"
    using on_stop_timed [OF on_start_stream_timed [OF assms], of i i] s2 by simp
  have 4: "timed w4"
    using on_start_record_timed [OF 2, of i] on_save_record_st [of i ?w3] s4
    by (simp add: timed_def)
  have 5: "timed w5"
    using on_exit_timed [OF 4, of i] s5 by simp
  have "snd (iteration i w) = w2 \<or> snd (iteration i w) = w4 \<or> snd (iteration i w) = w5"
    by (simp add: iteration_def Let_def s2 s4 s5 split: option.splits)
  with 2 4 5 show ?thesis by auto
qed

lemma command_loop_timed: "timed w \<Longrightarrow> timed (snd (command_loop es w))"
proof (induction es w rule: command_loop.induct)
  case (1 w)
  then show ?case by simp
next
  case (2 now data es w)
  then show ?case by (simp add: timed_def handler_flags)
next
  case (3 i es w)
  note it = iteration_timed [OF "3.prems", of i]
  show ?case
  proof (cases "iteration i w")
    case (Pair res w')
    with it have w': "timed w'" by simp
    show ?thesis
    proof (cases res)
      case (Inl e)
      with Pair w' show ?thesis by simp
    next
      case (Inr b)
      show ?thesis
      proof (cases b)
        case True
        with Pair Inr w' show ?thesis by simp
      next
        case False
        then show ?thesis using "3.IH" Pair Inr w' by simp
      qed
    qed
  qed
qed

text \<open>
  Where no GATT call fails, \<^verbatim>\<open>exit\<close> does what is asked of it. While streaming, the loop
  ends with STOP written, the callback removed and the streaming flag false. While not
  streaming, it ends with the flag still false and the client untouched. In every
  world a run of the loop reaches from the initial one, a set streaming flag comes with
  a set \<open>start_time\<close>.
\<close>

lemma exit_stops_stream:
  "(command i = ''exit'' \<and> is_streaming (st w) \<and> start_time (st w) \<noteq> None
      \<and> gatt_calls_succeed 2 (cl w) \<longrightarrow>
      command_loop (Input i # es) w =
        (Exited, w\<lparr>st := (st w)\<lparr>is_streaming := False\<rparr>, cl := stopped_client (cl w)\<rparr>))
   \<and> (command i = ''exit'' \<and> \<not> is_streaming (st w) \<longrightarrow>
        fst (command_loop (Input i # es) w) = Exited
      \<and> \<not> is_streaming (st (snd (command_loop (Input i # es) w)))
      \<and> cl (snd (command_loop (Input i # es) w)) = cl w)
   \<and> timed (snd (command_loop es0 (initial_world fl)))"
proof -
  have "timed (initial_world fl)" by (simp add: timed_def initial_world_def initial_state_def)
  then have "timed (snd (command_loop es0 (initial_world fl)))" by (rule command_loop_timed)
  then show ?thesis using exit_ok exit_idle by blast
qed

text \<open>
  C9. On \<^verbatim>\<open>exit\<close> while streaming, the stream is to be stopped and the streaming flag to
  be false when the loop ends. The code does not achieve it when the stop fails: with
  the STOP write raising, \<^verbatim>\<open>stop_stream\<close> raises, the assignment to the flag and the
  \<^verbatim>\<open>break\<close> are skipped, and the loop ends with the exception and the flag still set.
\<close>

theorem exit_failure:
  "command (cmd ''exit'') = ''exit''
   \<and> is_streaming (st (streaming_world [True]))
   \<and> fst (command_loop [Input (cmd ''exit'')] (streaming_world [True])) = Raised TransportError
   \<and> is_streaming (st (snd (command_loop [Input (cmd ''exit'')] (streaming_world [True]))))"
  by (simp add: stop_stream_def write_gatt_char_def next_fault_def
      cmd_def streaming_world_def iteration_def on_start_stream_def on_stop_def
      on_start_record_def on_save_record_def on_exit_def)

subsection \<open>Notifications before the start time is set\<close>

lemma handler_unset:
  "start_time s = None \<Longrightarrow> notification_handler now data s = (Some TypeError, s)"
  by (simp add: notification_handler_def)

lemma deliver_unset: "start_time s = None \<Longrightarrow> deliver ps s = s"
  by (induction ps s rule: deliver.induct) (simp_all add: handler_unset)

lemma start_stream_write_fails:
  assumes "start_time s = None" "faults c = False # True # fl"
  shows "start_stream ar now c s = (False, c\<lparr>notifying := True, faults := fl\<rparr>, s)"
  using assms
  by (simp add: start_stream_def start_notify_def write_gatt_char_def next_fault_def
      deliver_unset)

lemma start_stream_ok_unset:
  assumes "start_time s = None" "gatt_calls_succeed 2 c"
  shows "start_stream ar now c s =
    (True, c\<lparr>notifying := True, written := written c @ [[1]], faults := drop 2 (faults c)\<rparr>,
     s\<lparr>start_time := Some now\<rparr>)"
proof -
  have 2: "gatt_calls_succeed (Suc (Suc 0)) c" using assms(2) by (simp add: numeral_2_eq_2)
  note a = next_fault_ok [OF 2]
  let ?c1 = "c\<lparr>faults := drop 1 (faults c), notifying := True\<rparr>"
  have n: "start_notify c = (None, ?c1)"
    using a by (simp add: start_notify_def)
  have "gatt_calls_succeed (Suc 0) ?c1"
    using a by (simp add: gatt_calls_succeed_def)
  note b = next_fault_ok [OF this]
  have "write_gatt_char [1] ?c1 =
      (None, c\<lparr>notifying := True, written := written c @ [[1]], faults := drop 2 (faults c)\<rparr>)"
    using b by (simp add: write_gatt_char_def drop_Suc numeral_2_eq_2 drop_tl)
  then show ?thesis
    using assms(1) by (simp add: start_stream_def n deliver_unset)
qed

text \<open>
  C10. \<open>start_time\<close> is unset in the initial state, and the handler needs it: with
  \<open>start_time\<close> unset the handler raises \<^verbatim>\<open>TypeError\<close> in its guard and leaves the state
  as it was, neither appending nor discarding, for every notification of a sequence.
  This state is open to notifications twice. In a successful first \<^verbatim>\<open>start_stream\<close> the
  callback is installed and START written before \<open>start_time\<close> is assigned, and the
  notifications dispatched in between all fail. When \<^verbatim>\<open>start_notify\<close> succeeds and the
  START write raises, \<^verbatim>\<open>start_stream\<close> returns \<^verbatim>\<open>False\<close> with the callback installed and
  \<open>start_time\<close> still unset.
\<close>

theorem handler_needs_start_time:
  "start_time initial_state = None
   \<and> (start_time s = None \<longrightarrow>
        notification_handler now data s = (Some TypeError, s)
      \<and> deliver ps s = s)
   \<and> (start_time s = None \<and> gatt_calls_succeed 2 c \<longrightarrow>
        start_stream ps t c s =
          (True, c\<lparr>notifying := True, written := written c @ [[1]], faults := drop 2 (faults c)\<rparr>,
           s\<lparr>start_time := Some t\<rparr>))
   \<and> (start_time s = None \<and> faults c = False # True # fl \<longrightarrow>
        start_stream ps t c s = (False, c\<lparr>notifying := True, faults := fl\<rparr>, s))"
  using handler_unset deliver_unset start_stream_ok_unset start_stream_write_fails
  by (simp add: initial_state_def)

theorem handler_needs_start_time_witness:
  "start_time initial_state = None
   \<and> notification_handler 5000000 (replicate 243 1) initial_state = (Some TypeError, initial_state)
   \<and> gatt_calls_succeed 2 (cl (initial_world []))
   \<and> start_stream [(5000000, replicate 243 1)] 7 (cl (initial_world [])) initial_state =
       (True, \<lparr>notifying = True, written = [[1]], faults = []\<rparr>,
        initial_state\<lparr>start_time := Some 7\<rparr>)
   \<and> faults (cl (initial_world [False, True])) = [False, True]
   \<and> command_loop [Input (cmd ''start_stream''), Notification 5000000 (replicate 243 1)]
        (initial_world [False, True]) =
      (Waiting, \<lparr>st = initial_state, cl = \<lparr>notifying = True, written = [], faults = []\<rparr>,
                 files = Map.empty\<rparr>)"
proof -
  note t = handler_needs_start_time [of initial_state 5000000 "replicate 243 1" "[]"
      "cl (initial_world [False, True])" 0 "[]"]
  note v = handler_needs_start_time [of initial_state 5000000 "replicate 243 1"
      "[(5000000, replicate 243 1)]" "cl (initial_world [])" 7 "[]"]
  from t have u: "start_time initial_state = None" by blast
  from t u have h: "notification_handler 5000000 (replicate 243 1) initial_state =
      (Some TypeError, initial_state)" by blast
  have f: "faults (cl (initial_world [False, True])) = [False, True]"
    by (simp add: initial_world_def)
  have k: "gatt_calls_succeed 2 (cl (initial_world []))"
    by (simp add: gatt_calls_succeed_def initial_world_def)
  from v u k have "start_stream [(5000000, replicate 243 1)] 7 (cl (initial_world [])) initial_state =
      (True, (cl (initial_world []))\<lparr>notifying := True,
         written := written (cl (initial_world [])) @ [[1]],
         faults := drop 2 (faults (cl (initial_world [])))\<rparr>,
       initial_state\<lparr>start_time := Some 7\<rparr>)"
    by blast
  then have o: "start_stream [(5000000, replicate 243 1)] 7 (cl (initial_world [])) initial_state =
      (True, \<lparr>notifying = True, written = [[1]], faults = []\<rparr>,
       initial_state\<lparr>start_time := Some 7\<rparr>)"
    by (simp add: initial_world_def)
  from t u f have s: "start_stream [] 0 (cl (initial_world [False, True])) initial_state =
      (False, (cl (initial_world [False, True]))\<lparr>notifying := True, faults := []\<rparr>, initial_state)"
    by blast
  have l: "command_loop [Input (cmd ''start_stream''), Notification 5000000 (replicate 243 1)]
        (initial_world [False, True]) =
      (Waiting, \<lparr>st = initial_state, cl = \<lparr>notifying = True, written = [], faults = []\<rparr>,
                 files = Map.empty\<rparr>)"
    using s h
    by (simp add: cmd_def initial_world_def iteration_def on_start_stream_def on_stop_def
        on_start_record_def on_save_record_def on_exit_def initial_state_def)
  from u h f k o l show ?thesis by blast
qed

subsection \<open>The device scan\<close>
















text \<open>
  A detection accepted after the timeout and before the scanner has stopped still sets
  \<^verbatim>\<open>device\<close>.
\<close>

lemma late_match_after_timeout:
  "fst (wait_for_found
        [(10400000, Some \<lparr>name = Some ''Amua-A'', address = ''D5:91:CC:7A:AC:E4''\<rparr>)]
        \<lparr>device = None, found_event = False\<rparr>) = 10000000
   \<and> locate 500000
        [(10400000, Some \<lparr>name = Some ''Amua-A'', address = ''D5:91:CC:7A:AC:E4''\<rparr>)] =
       Connect ''D5:91:CC:7A:AC:E4''"
  by (simp add: matches_def DEVICES_def locate_def scan_def detection_callback_def
      SCAN_TIMEOUT_def)

subsection \<open>Two runs of the loop\<close>

text \<open>
  The model on two runs the design describes: three packets after the guard leave 363
  samples in the capture buffer; two packets while recording, then \<^verbatim>\<open>stop_record\<close> and
  \<^verbatim>\<open>save_record\<close>, leave a file of 242 frames.
\<close>

lemma packet_243: "packet_samples (replicate 243 b) = replicate 121 (signed16 (unat b + 256 * unat b))"
proof -
  have "map (\<lambda>i. signed16 (unat (replicate 243 b ! (2 * i + 1)) + 256 * unat (replicate 243 b ! (2 * i + 2)))) [0..<121]
      = map (\<lambda>i. signed16 (unat b + 256 * unat b)) [0..<121]"
    by (intro map_cong refl) simp
  then show ?thesis
    by (simp add: packet_samples_def parse_packet_long map_replicate_const)
qed

lemma run_capture:
  "length (audio_samples (st (snd (command_loop
     [Input (cmd ''start_stream''),
      Notification 2000000 (replicate 243 1),
      Notification 2500000 (replicate 243 2),
      Notification 3000000 (replicate 243 3),
      Input (cmd ''stop_stream'')] (initial_world []))))) = 363"
proof -
  have h: "snd (notification_handler now (replicate 243 b) s) =
      s\<lparr>audio_samples := audio_samples s @ packet_samples (replicate 243 b),
        recording := (if is_recording s then recording s @ packet_samples (replicate 243 b) else recording s)\<rparr>"
    if "start_time s = Some 0" "2000000 \<le> now" for now b s
    using that handler_accepts [of "replicate 243 b" _ "packet_samples (replicate 243 b)" s 0 now]
    by (simp add: parse_packet_long packet_samples_def)
  show ?thesis
    by (simp add: streaming_world_start [of "[]", simplified] streaming_world_def h packet_243
        initial_state_def cmd_def iteration_def on_start_stream_def on_stop_def on_start_record_def
        on_save_record_def on_exit_def stop_stream_def write_gatt_char_def stop_notify_def
        next_fault_def initial_world_def start_stream_def start_notify_def)
qed

lemma run_record:
  "\<exists>w. files (snd (command_loop
     [Input (cmd ''start_record''),
      Input (cmd ''start_stream''),
      Notification 2000000 (replicate 243 1),
      Notification 2500000 (replicate 243 255),
      Input (cmd ''stop_record''),
      Notification 3000000 (replicate 243 3),
      Input \<lparr>command = ''save_record'', filename = ''out.wav'', creatable = True, clock = 0,
        arrivals = []\<rparr>]
     (initial_world []))) ''out.wav'' = Some w
   \<and> nframes w = 242 \<and> length (frames w) = 484 \<and> framerate w = 32000"
proof -
  have h: "snd (notification_handler now (replicate 243 b) s) =
      s\<lparr>audio_samples := audio_samples s @ packet_samples (replicate 243 b),
        recording := (if is_recording s then recording s @ packet_samples (replicate 243 b) else recording s)\<rparr>"
    if "start_time s = Some 0" "2000000 \<le> now" for now b s
    using that handler_accepts [of "replicate 243 b" _ "packet_samples (replicate 243 b)" s 0 now]
    by (simp add: parse_packet_long packet_samples_def)
  show ?thesis
    by (simp add: h packet_243 
        initial_state_def cmd_def iteration_def on_start_stream_def on_stop_def on_start_record_def
        on_save_record_def on_exit_def stop_stream_def write_gatt_char_def stop_notify_def
        next_fault_def initial_world_def start_stream_def start_notify_def
        start_recording_def stop_recording_def save_recording_def pack_h_def in_int16_def
        signed16_def writeframes_def length_concat sum_list_replicate le16_bytes_def
        SAMPLE_RATE_def list_all_iff)
qed

text \<open>
  \<^verbatim>\<open>save_record\<close> with the empty line at the filename prompt: \<^verbatim>\<open>open\<close> raises, nothing is
  written, and the exception ends the loop.
\<close>

lemma run_save_empty_name:
  "command_loop
     [Input \<lparr>command = ''save_record'', filename = [], creatable = True, clock = 0,
        arrivals = []\<rparr>,
      Input (cmd ''exit'')] (initial_world []) =
   (Raised OSError, initial_world [])"
  by (simp add: iteration_def on_start_stream_def on_stop_def on_start_record_def
      on_save_record_def save_recording_def initial_world_def)

end
